theory Spec2Isabelle
  imports Complex_Main "HOL-Library.Multiset" "HOL-Library.Sublist"
begin

section \<open>Arc aggregation (lib/arc-utils): data model\<close>

text \<open>
  A JavaScript number is modelled by its exact value: \<open>Fin x\<close> for a finite number,
  the two infinities and \<open>NaN\<close>. The two zeros are one value (they are \<open>===\<close> in
  JavaScript, and \<open>toFixed\<close> prints both without a sign). Comparison and \<open>toFixed\<close>
  are exact in JavaScript too; the rounding of IEEE addition is not modelled, an
  addition of two finite numbers is the exact sum.
\<close>

datatype number = NaN | NegInf | Fin real | PosInf

text \<open>A property of an object that may be absent: \<open>undefined\<close>, \<open>null\<close> or a value.\<close>

datatype 'a field = Undefined | Null | Val 'a

text \<open>
  The declaration of \<open>MuseumObject\<close> (module \<open>../types\<close>) is not part of the sources;
  the record below has the properties that the functions of this module read.
\<close>

record Attributes =
  latitude :: "number field"
  longitude :: "number field"
  institution_latitude :: "number field"
  institution_longitude :: "number field"
  country_en :: "string field"
  city_en :: "string field"
  institution_city_en :: "string field"

record MuseumObject =
  obj_id :: nat
  attributes :: Attributes

datatype level = Country | City | Object

text \<open>
  \<open>ClusteredArc\<close>: the fields \<open>id\<close>, \<open>count\<close> and \<open>objects\<close> of the source are
  \<open>arc_id\<close>, \<open>arc_count\<close> and \<open>arc_objects\<close> here.
\<close>

record ClusteredArc =
  arc_id :: string
  sourcePosition :: "number \<times> number"
  targetPosition :: "number \<times> number"
  arc_count :: nat
  arc_objects :: "MuseumObject list"
  level :: "level option"

text \<open>
  \<open>CountryAggregation\<close>: the fields \<open>count\<close>, \<open>latitude\<close>, \<open>longitude\<close> and \<open>objects\<close>
  of the source are \<open>agg_count\<close>, \<open>agg_latitude\<close>, \<open>agg_longitude\<close> and \<open>agg_objects\<close>.
\<close>

record CountryAggregation =
  country :: string
  agg_count :: nat
  agg_latitude :: number
  agg_longitude :: number
  agg_objects :: "MuseumObject list"

record Bounds =
  north :: number
  south :: number
  east :: number
  west :: number

section \<open>JavaScript operators used by the module\<close>

text \<open>\<open>a <= b\<close> and \<open>a < b\<close> on numbers: false as soon as one side is \<open>NaN\<close>.\<close>

fun num_le :: "number \<Rightarrow> number \<Rightarrow> bool" where
  "num_le NaN _ = False"
| "num_le _ NaN = False"
| "num_le NegInf _ = True"
| "num_le _ PosInf = True"
| "num_le (Fin x) (Fin y) = (x \<le> y)"
| "num_le (Fin x) NegInf = False"
| "num_le PosInf (Fin y) = False"
| "num_le PosInf NegInf = False"

fun num_lt :: "number \<Rightarrow> number \<Rightarrow> bool" where
  "num_lt NaN _ = False"
| "num_lt _ NaN = False"
| "num_lt (Fin x) (Fin y) = (x < y)"
| "num_lt NegInf NegInf = False"
| "num_lt NegInf _ = True"
| "num_lt PosInf _ = False"
| "num_lt (Fin x) PosInf = True"
| "num_lt (Fin x) NegInf = False"

text \<open>\<open>a >= b\<close> is \<open>b <= a\<close> and \<open>a > b\<close> is \<open>b < a\<close>.\<close>

definition num_ge :: "number \<Rightarrow> number \<Rightarrow> bool" where
  "num_ge a b = num_le b a"

definition num_gt :: "number \<Rightarrow> number \<Rightarrow> bool" where
  "num_gt a b = num_lt b a"

text \<open>\<open>a === b\<close> on numbers: \<open>NaN\<close> is equal to nothing.\<close>

definition strict_eq :: "number \<Rightarrow> number \<Rightarrow> bool" where
  "strict_eq a b = (a \<noteq> NaN \<and> b \<noteq> NaN \<and> a = b)"

text \<open>\<open>a + b\<close> and \<open>a / 2\<close> on numbers.\<close>

fun num_add :: "number \<Rightarrow> number \<Rightarrow> number" where
  "num_add NaN _ = NaN"
| "num_add _ NaN = NaN"
| "num_add (Fin x) (Fin y) = Fin (x + y)"
| "num_add PosInf NegInf = NaN"
| "num_add NegInf PosInf = NaN"
| "num_add PosInf _ = PosInf"
| "num_add NegInf _ = NegInf"
| "num_add (Fin x) PosInf = PosInf"
| "num_add (Fin x) NegInf = NegInf"

fun num_half :: "number \<Rightarrow> number" where
  "num_half (Fin x) = Fin (x / 2)"
| "num_half n = n"

text \<open>
  The conversion of a property to a number, which \<open>>=\<close> and \<open><=\<close> apply to their
  operands: \<open>undefined\<close> becomes \<open>NaN\<close> and \<open>null\<close> becomes 0.
\<close>

fun to_number :: "number field \<Rightarrow> number" where
  "to_number Undefined = NaN"
| "to_number Null = Fin 0"
| "to_number (Val n) = n"

text \<open>
  Truthiness, as \<open>&&\<close>, \<open>||\<close> and \<open>if\<close> test it: of a number property (0 and \<open>NaN\<close>
  are falsy) and of a string property (the empty string is falsy).
\<close>

fun truthy_num :: "number field \<Rightarrow> bool" where
  "truthy_num (Val NaN) = False"
| "truthy_num (Val (Fin x)) = (x \<noteq> 0)"
| "truthy_num (Val _) = True"
| "truthy_num _ = False"

fun truthy_str :: "string field \<Rightarrow> bool" where
  "truthy_str (Val s) = (s \<noteq> [])"
| "truthy_str _ = False"

text \<open>\<open>s || d\<close> for a string property \<open>s\<close> and a default \<open>d\<close>.\<close>

fun str_or :: "string field \<Rightarrow> string \<Rightarrow> string" where
  "str_or (Val s) d = (if s = [] then d else s)"
| "str_or _ d = d"

text \<open>
  \<open>v !== undefined && v !== null && !isNaN(v)\<close> for a number property: the three tests
  that the filters of the module make on each coordinate.
\<close>

fun present :: "number field \<Rightarrow> bool" where
  "present Undefined = False"
| "present Null = False"
| "present (Val n) = (n \<noteq> NaN)"

subsection \<open>\<open>Number.prototype.toFixed(2)\<close>\<close>

definition digit_char :: "nat \<Rightarrow> char" where
  "digit_char d = ''0123456789'' ! (d mod 10)"

function digits :: "nat \<Rightarrow> string" where
  "digits n = (if n < 10 then [digit_char n] else digits (n div 10) @ [digit_char (n mod 10)])"
  by pat_completeness auto
termination
  by (relation "measure id") auto

declare digits.simps [simp del]

text \<open>
  For a finite \<open>x\<close> below \<open>10^21\<close> in magnitude: the sign when \<open>x < 0\<close>, then the
  integer \<open>n\<close> nearest to \<open>|x| * 100\<close> (the larger one on a tie), printed with at
  least three digits and a point before the last two. From \<open>10^21\<close> on, \<open>toFixed\<close>
  returns the sign and \<open>Number::toString\<close> of the magnitude, which is not modelled and
  is the parameter \<open>toStr\<close>.
\<close>

definition toFixed2 :: "(real \<Rightarrow> string) \<Rightarrow> number \<Rightarrow> string" where
  "toFixed2 toStr v =
     (case v of
        NaN \<Rightarrow> ''NaN''
      | PosInf \<Rightarrow> ''Infinity''
      | NegInf \<Rightarrow> ''-Infinity''
      | Fin x \<Rightarrow>
          (let s = (if x < 0 then ''-'' else '''');
               y = \<bar>x\<bar>
           in if 10 ^ 21 \<le> y then s @ toStr y
              else
                (let n = nat \<lfloor>y * 100 + 1 / 2\<rfloor>;
                     m = digits n;
                     m' = replicate (3 - length m) (CHR ''0'') @ m;
                     k = length m'
                 in s @ take (k - 2) m' @ ''.'' @ drop (k - 2) m')))"

subsection \<open>\<open>Map\<close>: keys in insertion order\<close>

text \<open>
  A \<open>Map\<close> is the list of its entries in insertion order. \<open>set\<close> on a key that is
  present replaces the value where it stands; a new key goes to the end.
\<close>

type_synonym ('k, 'v) jsmap = "('k \<times> 'v) list"

definition map_has :: "('k, 'v) jsmap \<Rightarrow> 'k \<Rightarrow> bool" where
  "map_has m k = (map_of m k \<noteq> None)"

definition map_get :: "('k, 'v) jsmap \<Rightarrow> 'k \<Rightarrow> 'v option" where
  "map_get m k = map_of m k"

fun map_set :: "('k, 'v) jsmap \<Rightarrow> 'k \<Rightarrow> 'v \<Rightarrow> ('k, 'v) jsmap" where
  "map_set [] k v = [(k, v)]"
| "map_set ((k', v') # m) k v =
     (if k' = k then (k, v) # m else (k', v') # map_set m k v)"

definition map_values :: "('k, 'v) jsmap \<Rightarrow> 'v list" where
  "map_values m = map snd m"

subsection \<open>\<open>Array.prototype.sort\<close> and \<open>slice(0, end)\<close>\<close>

text \<open>
  \<open>sort\<close> with a comparator is a stable sort: \<open>x\<close> stays before \<open>y\<close> unless the
  comparator puts \<open>y\<close> strictly first. Insertion from the right gives that order.
\<close>

fun insert_by :: "('a \<Rightarrow> 'a \<Rightarrow> int) \<Rightarrow> 'a \<Rightarrow> 'a list \<Rightarrow> 'a list" where
  "insert_by cmp x [] = [x]"
| "insert_by cmp x (y # ys) =
     (if cmp x y \<le> 0 then x # y # ys else y # insert_by cmp x ys)"

definition sort_by :: "('a \<Rightarrow> 'a \<Rightarrow> int) \<Rightarrow> 'a list \<Rightarrow> 'a list" where
  "sort_by cmp xs = foldr (insert_by cmp) xs []"

text \<open>
  \<open>xs.slice(0, end)\<close>: \<open>end\<close> is truncated towards zero (\<open>NaN\<close> counts as 0); a
  negative \<open>end\<close> counts from the end of the array.
\<close>

definition trunc :: "real \<Rightarrow> int" where
  "trunc x = (if 0 \<le> x then \<lfloor>x\<rfloor> else \<lceil>x\<rceil>)"

fun slice0 :: "'a list \<Rightarrow> number \<Rightarrow> 'a list" where
  "slice0 xs NaN = []"
| "slice0 xs NegInf = []"
| "slice0 xs PosInf = xs"
| "slice0 xs (Fin e) =
     (let r = trunc e
      in if r < 0 then take (nat (int (length xs) + r)) xs else take (nat r) xs)"

section \<open>The functions of the module\<close>

subsection \<open>\<open>aggregateByCountry\<close>\<close>

text \<open>
  The body of the \<open>forEach\<close>: one object, applied to the map built so far. The
  aggregation of the country is created on the first object of the country, then
  updated in place. The variable \<open>country\<close> of the source is \<open>c\<close>; \<open>counted\<close> is the
  aggregation after \<open>count++\<close> and \<open>objects.push(obj)\<close>.
\<close>

definition aggregate_step ::
  "(string, CountryAggregation) jsmap \<Rightarrow> MuseumObject \<Rightarrow> (string, CountryAggregation) jsmap"
where
  "aggregate_step countryMap obj =
     (let c = str_or (country_en (attributes obj)) ''Unknown''
      in if c = [] \<or> c = ''Unknown'' then countryMap
         else
           (let countryMap1 =
                  (if \<not> map_has countryMap c
                   then map_set countryMap c
                          \<lparr>country = c, agg_count = 0, agg_latitude = Fin 0,
                           agg_longitude = Fin 0, agg_objects = []\<rparr>
                   else countryMap)
            in case map_get countryMap1 c of
                 None \<Rightarrow> countryMap1
               | Some aggregation \<Rightarrow>
                   (let counted = aggregation
                          \<lparr>agg_count := agg_count aggregation + 1,
                           agg_objects := agg_objects aggregation @ [obj]\<rparr>;
                        lat = latitude (attributes obj);
                        lon = longitude (attributes obj)
                    in map_set countryMap1 c
                         (if truthy_num lat \<and> truthy_num lon
                          then
                            (if strict_eq (agg_latitude counted) (Fin 0) \<and>
                                strict_eq (agg_longitude counted) (Fin 0)
                             then counted
                                    \<lparr>agg_latitude := to_number lat,
                                     agg_longitude := to_number lon\<rparr>
                             else counted
                                    \<lparr>agg_latitude :=
                                       num_half (num_add (agg_latitude counted) (to_number lat)),
                                     agg_longitude :=
                                       num_half (num_add (agg_longitude counted) (to_number lon))\<rparr>)
                          else counted))))"

definition aggregateByCountry :: "MuseumObject list \<Rightarrow> CountryAggregation list" where
  "aggregateByCountry objects =
     (if length objects = 0 then []
      else map_values (foldl aggregate_step [] objects))"

subsection \<open>\<open>clusterArcs\<close>\<close>

text \<open>The predicate of the filter that \<open>clusterArcs\<close> begins with.\<close>

definition valid_coords :: "MuseumObject \<Rightarrow> bool" where
  "valid_coords obj =
     (present (institution_longitude (attributes obj)) \<and>
      present (institution_latitude (attributes obj)) \<and>
      present (longitude (attributes obj)) \<and>
      present (latitude (attributes obj)))"

text \<open>
  The four coordinates of an object when all four are numbers: origin longitude and
  latitude, then institution longitude and latitude.
\<close>

definition coords :: "MuseumObject \<Rightarrow> (number \<times> number \<times> number \<times> number) option" where
  "coords obj =
     (case longitude (attributes obj) of
        Val slon \<Rightarrow>
          (case latitude (attributes obj) of
             Val slat \<Rightarrow>
               (case institution_longitude (attributes obj) of
                  Val tlon \<Rightarrow>
                    (case institution_latitude (attributes obj) of
                       Val tlat \<Rightarrow> Some (slon, slat, tlon, tlat)
                     | _ \<Rightarrow> None)
                | _ \<Rightarrow> None)
           | _ \<Rightarrow> None)
      | _ \<Rightarrow> None)"

text \<open>
  The body of the \<open>forEach\<close> of \<open>clusterArcs\<close>. \<open>has\<close> and \<open>get\<close> of the source are one
  lookup here. An object with a coordinate that is no number leaves the map as it is
  (in the source \<open>toFixed\<close> throws and the \<open>catch\<close> skips the object); the filter lets
  no such object through.
\<close>

definition arc_key :: "(real \<Rightarrow> string) \<Rightarrow> number \<times> number \<Rightarrow> number \<times> number \<Rightarrow> string" where
  "arc_key toStr sourcePos targetPos =
     toFixed2 toStr (fst sourcePos) @ '','' @ toFixed2 toStr (snd sourcePos) @ ''-'' @
     toFixed2 toStr (fst targetPos) @ '','' @ toFixed2 toStr (snd targetPos)"

definition clusterArcs_step ::
  "(real \<Rightarrow> string) \<Rightarrow> (string, ClusteredArc) jsmap \<Rightarrow> MuseumObject \<Rightarrow> (string, ClusteredArc) jsmap"
where
  "clusterArcs_step toStr clusters obj =
     (case coords obj of
        None \<Rightarrow> clusters
      | Some (slon, slat, tlon, tlat) \<Rightarrow>
          (let sourcePos = (slon, slat);
               targetPos = (tlon, tlat)
           in if strict_eq (fst sourcePos) (fst targetPos) \<and>
                 strict_eq (snd sourcePos) (snd targetPos)
              then clusters
              else
                (let key = arc_key toStr sourcePos targetPos
                 in case map_get clusters key of
                      Some cluster \<Rightarrow>
                        map_set clusters key
                          (cluster\<lparr>arc_count := arc_count cluster + 1,
                                   arc_objects := arc_objects cluster @ [obj]\<rparr>)
                    | None \<Rightarrow>
                        map_set clusters key
                          \<lparr>arc_id = key, sourcePosition = sourcePos,
                           targetPosition = targetPos, arc_count = 1,
                           arc_objects = [obj], level = Some Object\<rparr>)))"

text \<open>
  The end of \<open>clusterArcs\<close> and of \<open>clusterArcsByCity\<close>: when there are more arcs than
  \<open>maxArcs\<close>, sort by count (descending) and keep \<open>slice(0, maxArcs)\<close>.
\<close>

definition capArcs :: "ClusteredArc list \<Rightarrow> number \<Rightarrow> ClusteredArc list" where
  "capArcs arcs maxArcs =
     (if num_gt (Fin (real (length arcs))) maxArcs
      then slice0 (sort_by (\<lambda>a b. int (arc_count b) - int (arc_count a)) arcs) maxArcs
      else arcs)"

text \<open>\<open>maxArcs\<close> is 2000 when the caller gives none.\<close>

definition clusterArcs ::
  "(real \<Rightarrow> string) \<Rightarrow> MuseumObject list \<Rightarrow> number \<Rightarrow> ClusteredArc list"
where
  "clusterArcs toStr objects maxArcs =
     (let validObjects = filter valid_coords objects
      in if length validObjects = 0 then []
         else capArcs (map_values (foldl (clusterArcs_step toStr) [] validObjects)) maxArcs)"

subsection \<open>\<open>clusterArcsByCity\<close>\<close>

text \<open>
  The body of the \<open>forEach\<close> of \<open>clusterArcsByCity\<close>. The positions of an arc are
  numbers in this model, and the filter lets only objects with four numbers through.
\<close>

definition clusterArcsByCity_step ::
  "(string, ClusteredArc) jsmap \<Rightarrow> MuseumObject \<Rightarrow> (string, ClusteredArc) jsmap"
where
  "clusterArcsByCity_step cityClusters obj =
     (let sourceCity = str_or (city_en (attributes obj)) ''Unknown'';
          targetCity = str_or (institution_city_en (attributes obj)) ''Unknown''
      in if sourceCity = ''Unknown'' \<or> targetCity = ''Unknown'' \<or> sourceCity = targetCity
         then cityClusters
         else
           (case coords obj of
              None \<Rightarrow> cityClusters
            | Some (slon, slat, tlon, tlat) \<Rightarrow>
                (let sourcePos = (slon, slat);
                     targetPos = (tlon, tlat);
                     key = sourceCity @ ''-to-'' @ targetCity
                 in case map_get cityClusters key of
                      Some cluster \<Rightarrow>
                        map_set cityClusters key
                          (cluster\<lparr>arc_count := arc_count cluster + 1,
                                   arc_objects := arc_objects cluster @ [obj]\<rparr>)
                    | None \<Rightarrow>
                        map_set cityClusters key
                          \<lparr>arc_id = key, sourcePosition = sourcePos,
                           targetPosition = targetPos, arc_count = 1,
                           arc_objects = [obj], level = Some City\<rparr>)))"

text \<open>\<open>maxArcs\<close> is 500 when the caller gives none.\<close>

definition clusterArcsByCity :: "MuseumObject list \<Rightarrow> number \<Rightarrow> ClusteredArc list" where
  "clusterArcsByCity objects maxArcs =
     (let validObjects =
            filter (\<lambda>obj. valid_coords obj \<and> truthy_str (city_en (attributes obj))) objects
      in if length validObjects = 0 then []
         else capArcs (map_values (foldl clusterArcsByCity_step [] validObjects)) maxArcs)"

subsection \<open>\<open>getArcsByZoomLevel\<close>\<close>

text \<open>The predicate of the bounds filter; \<open>>=\<close> and \<open><=\<close> convert the property first.\<close>

definition in_bounds :: "Bounds \<Rightarrow> MuseumObject \<Rightarrow> bool" where
  "in_bounds bounds obj =
     (num_ge (to_number (latitude (attributes obj))) (south bounds) \<and>
      num_le (to_number (latitude (attributes obj))) (north bounds) \<and>
      num_ge (to_number (longitude (attributes obj))) (west bounds) \<and>
      num_le (to_number (longitude (attributes obj))) (east bounds))"

text \<open>\<open>zoom\<close> is 0 when the caller gives none; \<open>bounds\<close> may be absent.\<close>

definition getArcsByZoomLevel ::
  "(real \<Rightarrow> string) \<Rightarrow> MuseumObject list \<Rightarrow> number \<Rightarrow> Bounds option \<Rightarrow> ClusteredArc list"
where
  "getArcsByZoomLevel toStr objects zoom bounds =
     (if length objects = 0 then []
      else if num_le zoom (Fin 4) then clusterArcs toStr objects (Fin 100)
      else if num_le zoom (Fin 8) then clusterArcsByCity objects (Fin 500)
      else
        (let objectsToProcess =
               (case bounds of
                  None \<Rightarrow> objects
                | Some b \<Rightarrow> filter (in_bounds b) objects);
             maxArcs = (if num_ge zoom (Fin 12) then Fin 2000 else Fin 1000)
         in clusterArcs toStr objectsToProcess maxArcs))"

section \<open>Notions used in the statements\<close>

text \<open>
  An object whose origin and destination carry the same longitude and the same
  latitude, as they are stored (before any rounding).
\<close>

definition unmoved :: "MuseumObject \<Rightarrow> bool" where
  "unmoved obj =
     (longitude (attributes obj) = institution_longitude (attributes obj) \<and>
      latitude (attributes obj) = institution_latitude (attributes obj))"

text \<open>
  \<open>top_by_count k xs ys\<close>: \<open>ys\<close> are the \<open>k\<close> arcs of \<open>xs\<close> with the highest counts, in
  descending order of count, and arcs of equal count are taken, and listed, in the
  order they have in \<open>xs\<close>. The four conjuncts: \<open>ys\<close> has \<open>k\<close> arcs; it is in
  descending order; it is a part of \<open>xs\<close> and no arc left out has a higher count than
  one kept; for each count, the arcs of \<open>ys\<close> with that count are the first ones of
  \<open>xs\<close> with that count, in the same order.
\<close>

definition top_by_count :: "nat \<Rightarrow> ClusteredArc list \<Rightarrow> ClusteredArc list \<Rightarrow> bool" where
  "top_by_count k xs ys =
     (length ys = k \<and>
      sorted_wrt (\<lambda>a b. arc_count b \<le> arc_count a) ys \<and>
      (\<exists>zs. mset (ys @ zs) = mset xs \<and>
            (\<forall>y \<in> set ys. \<forall>z \<in> set zs. arc_count z \<le> arc_count y)) \<and>
      (\<forall>c. prefix (filter (\<lambda>a. arc_count a = c) ys) (filter (\<lambda>a. arc_count a = c) xs)))"

text \<open>
  The origin of an object lies within the bounds: its latitude and longitude are
  numbers, between south and north and between west and east.
\<close>

definition origin_within :: "Bounds \<Rightarrow> MuseumObject \<Rightarrow> bool" where
  "origin_within b obj =
     (case latitude (attributes obj) of
        Val lat \<Rightarrow>
          (case longitude (attributes obj) of
             Val lon \<Rightarrow>
               num_le (south b) lat \<and> num_le lat (north b) \<and>
               num_le (west b) lon \<and> num_le lon (east b)
           | _ \<Rightarrow> False)
      | _ \<Rightarrow> False)"

text \<open>An object whose origin latitude or origin longitude is the number 0.\<close>

definition zero_coordinate :: "MuseumObject \<Rightarrow> bool" where
  "zero_coordinate obj =
     (latitude (attributes obj) = Val (Fin 0) \<or> longitude (attributes obj) = Val (Fin 0))"

text \<open>
  The two notions of the specification that the count conservation is written with. A
  record is arc-eligible when its four coordinates are present and finite numbers. A
  record has no displacement when its origin and its destination are equal after
  rounding to two decimals, that is, when \<open>toFixed(2)\<close> prints the two longitudes alike
  and the two latitudes alike.
\<close>

fun finite_num :: "number field \<Rightarrow> bool" where
  "finite_num (Val (Fin x)) = True"
| "finite_num _ = False"

definition arc_eligible :: "MuseumObject \<Rightarrow> bool" where
  "arc_eligible obj =
     (finite_num (longitude (attributes obj)) \<and>
      finite_num (latitude (attributes obj)) \<and>
      finite_num (institution_longitude (attributes obj)) \<and>
      finite_num (institution_latitude (attributes obj)))"

definition same_rounded :: "(real \<Rightarrow> string) \<Rightarrow> MuseumObject \<Rightarrow> bool" where
  "same_rounded toStr obj =
     (case coords obj of
        None \<Rightarrow> False
      | Some (slon, slat, tlon, tlat) \<Rightarrow>
          toFixed2 toStr slon = toFixed2 toStr tlon \<and>
          toFixed2 toStr slat = toFixed2 toStr tlat)"

section \<open>Notions used in the proofs\<close>

text \<open>\<open>count++\<close> and \<open>objects.push(obj)\<close> on an arc.\<close>

definition bump :: "MuseumObject \<Rightarrow> ClusteredArc \<Rightarrow> ClusteredArc" where
  "bump obj c = c\<lparr>arc_count := arc_count c + 1, arc_objects := arc_objects c @ [obj]\<rparr>"

text \<open>
  The key that \<open>aggregateByCountry\<close> files an object under, and whether it files the
  object at all.
\<close>

definition label :: "MuseumObject \<Rightarrow> string" where
  "label obj = str_or (country_en (attributes obj)) ''Unknown''"

definition labelled :: "MuseumObject \<Rightarrow> bool" where
  "labelled obj = (\<not> (label obj = [] \<or> label obj = ''Unknown''))"

text \<open>
  The aggregation of a country taken alone: created empty, then updated by each object
  of the country in turn. \<open>centroid_step\<close> is the update of (latitude, longitude).
\<close>

definition fresh_aggregation :: "string \<Rightarrow> CountryAggregation" where
  "fresh_aggregation c =
     \<lparr>country = c, agg_count = 0, agg_latitude = Fin 0, agg_longitude = Fin 0, agg_objects = []\<rparr>"

definition centroid_step :: "number \<times> number \<Rightarrow> MuseumObject \<Rightarrow> number \<times> number" where
  "centroid_step p obj =
     (let lat = latitude (attributes obj); lon = longitude (attributes obj)
      in if truthy_num lat \<and> truthy_num lon
         then (if strict_eq (fst p) (Fin 0) \<and> strict_eq (snd p) (Fin 0)
               then (to_number lat, to_number lon)
               else (num_half (num_add (fst p) (to_number lat)),
                     num_half (num_add (snd p) (to_number lon))))
         else p)"

definition entry_step :: "CountryAggregation \<Rightarrow> MuseumObject \<Rightarrow> CountryAggregation" where
  "entry_step a obj =
     a\<lparr>agg_count := agg_count a + 1,
       agg_objects := agg_objects a @ [obj],
       agg_latitude := fst (centroid_step (agg_latitude a, agg_longitude a) obj),
       agg_longitude := snd (centroid_step (agg_latitude a, agg_longitude a) obj)\<rparr>"

definition aggregation_of :: "string \<Rightarrow> MuseumObject list \<Rightarrow> CountryAggregation" where
  "aggregation_of c objs = foldl entry_step (fresh_aggregation c) (filter (\<lambda>obj. label obj = c) objs)"

section \<open>Example inputs\<close>

text \<open>
  No example has a coordinate of magnitude \<open>10^21\<close> or more, so that what stands for
  \<open>Number::toString\<close> in them is never called.
\<close>

definition plain :: "real \<Rightarrow> string" where
  "plain x = []"

definition museum_object ::
  "nat \<Rightarrow> real \<times> real \<Rightarrow> real \<times> real \<Rightarrow> string field \<Rightarrow> string field \<Rightarrow> string field \<Rightarrow> MuseumObject"
where
  "museum_object i origin destination c city city' =
     \<lparr>obj_id = i,
      attributes =
        \<lparr>latitude = Val (Fin (snd origin)), longitude = Val (Fin (fst origin)),
         institution_latitude = Val (Fin (snd destination)),
         institution_longitude = Val (Fin (fst destination)),
         country_en = c, city_en = city, institution_city_en = city'\<rparr>\<rparr>"

text \<open>
  \<open>nearby\<close> travels 1/512 of a degree of longitude, less than the rounding of the key
  sees; \<open>moved\<close> travels far; \<open>stayed\<close> does not travel.
\<close>

definition nearby :: MuseumObject where
  "nearby = museum_object 1 (10, 20) (10 + 1 / 512, 20) Undefined Undefined Undefined"

definition moved :: MuseumObject where
  "moved = museum_object 2 (10, 20) (30, 40) Undefined Undefined Undefined"

definition stayed :: MuseumObject where
  "stayed = museum_object 3 (5, 5) (5, 5) Undefined Undefined Undefined"

text \<open>
  Objects with city labels, for the clusterer by city; objects of France, of Kenya on the
  equator, and an object without a country, for the aggregation; bounds with a \<open>NaN\<close>.
\<close>

definition lyon_berlin :: "nat \<Rightarrow> MuseumObject" where
  "lyon_berlin i =
     museum_object i (10, 20) (30, 40) (Val ''France'') (Val ''Lyon'') (Val ''Berlin'')"

definition accra_london :: "nat \<Rightarrow> MuseumObject" where
  "accra_london i =
     museum_object i (1, 2) (3, 4) (Val ''Ghana'') (Val ''Accra'') (Val ''London'')"

definition three_objects :: "MuseumObject list" where
  "three_objects = [accra_london 1, lyon_berlin 2, lyon_berlin 3]"

definition france :: "nat \<Rightarrow> real \<times> real \<Rightarrow> MuseumObject" where
  "france i origin = museum_object i origin (13, 52) (Val ''France'') Undefined Undefined"

definition kenya :: "nat \<Rightarrow> real \<times> real \<Rightarrow> MuseumObject" where
  "kenya i origin = museum_object i origin (13, 52) (Val ''Kenya'') Undefined Undefined"

definition nowhere :: "nat \<Rightarrow> real \<times> real \<Rightarrow> MuseumObject" where
  "nowhere i origin = museum_object i origin (13, 52) Null Undefined Undefined"

definition france_example :: "MuseumObject list" where
  "france_example = [france 1 (2, 48), france 2 (3, 49), nowhere 3 (1, 1)]"

definition through_origin :: "MuseumObject list" where
  "through_origin = [france 1 (2, 48), france 2 (- 2, - 48), france 3 (3, 49)]"

definition on_the_axes :: "MuseumObject list" where
  "on_the_axes =
     [kenya 1 (37, 0), france 2 (2, 48), kenya 3 (36, 0), france 4 (0, 47), france 5 (3, 49)]"

definition view :: Bounds where
  "view = \<lparr>north = Fin 50, south = Fin 0, east = Fin 50, west = Fin 0\<rparr>"

text \<open>\<open>moved\<close> with an origin longitude of \<open>Infinity\<close>.\<close>

definition from_infinity :: MuseumObject where
  "from_infinity = moved\<lparr>attributes := (attributes moved)\<lparr>longitude := Val PosInf\<rparr>\<rparr>"

definition nan_south :: Bounds where
  "nan_south = \<lparr>north = Fin 50, south = NaN, east = Fin 50, west = Fin 0\<rparr>"

section \<open>Properties\<close>

subsection \<open>Folds, maps, sorting and slicing\<close>

lemma foldl_invariant:
  assumes "P s" and "\<And>s x. P s \<Longrightarrow> x \<in> set xs \<Longrightarrow> P (f s x)"
  shows "P (foldl f s xs)"
  using assms by (induction xs arbitrary: s) auto

lemma map_of_map_set: "map_of (map_set m k v) = (map_of m)(k \<mapsto> v)"
  by (induction m) (auto simp: fun_eq_iff)

lemma in_map_set: "(k', v') \<in> set (map_set m k v) \<Longrightarrow> (k' = k \<and> v' = v) \<or> (k', v') \<in> set m"
  by (induction m) (auto split: if_splits)

lemma keys_map_set: "fst ` set (map_set m k v) = insert k (fst ` set m)"
proof (induction m)
  case Nil
  show ?case by simp
next
  case (Cons p m)
  then show ?case by (cases p) (simp add: insert_commute)
qed

lemma distinct_map_set: "distinct (map fst m) \<Longrightarrow> distinct (map fst (map_set m k v))"
proof (induction m)
  case Nil
  then show ?case by simp
next
  case (Cons p m)
  obtain k' v' where p: "p = (k', v')" by (cases p)
  show ?case
  proof (cases "k' = k")
    case True
    with Cons.prems p show ?thesis by simp
  next
    case False
    have "k' \<notin> fst ` set (map_set m k v)"
      using Cons.prems p False by (simp add: keys_map_set)
    with Cons p False show ?thesis by simp
  qed
qed

lemma values_invariant:
  assumes "\<forall>a \<in> set (map_values m). P a" and "P v"
  shows "\<forall>a \<in> set (map_values (map_set m k v)). P a"
  using assms in_map_set [of _ _ m k v] by (fastforce simp: map_values_def)

lemma map_get_value: "map_get m k = Some v \<Longrightarrow> v \<in> set (map_values m)"
  unfolding map_get_def map_values_def
  by (induction m) (auto split: if_splits)

lemma set_insert_by: "set (insert_by cmp x ys) = insert x (set ys)"
  by (induction ys) auto

lemma set_sort_by: "set (sort_by cmp xs) = set xs"
  by (induction xs) (auto simp: sort_by_def set_insert_by)

lemma set_slice0: "set (slice0 xs e) \<subseteq> set xs"
  by (cases e) (auto simp: Let_def dest: in_set_takeD)

lemma set_capArcs: "set (capArcs arcs maxArcs) \<subseteq> set arcs"
  using set_slice0 [of "sort_by (\<lambda>a b. int (arc_count b) - int (arc_count a)) arcs" maxArcs]
  by (auto simp: capArcs_def set_sort_by)

subsection \<open>One step of the two clusterers\<close>

lemma coords_valid:
  assumes "valid_coords obj"
  obtains slon slat tlon tlat where
    "coords obj = Some (slon, slat, tlon, tlat)"
    "longitude (attributes obj) = Val slon" "latitude (attributes obj) = Val slat"
    "institution_longitude (attributes obj) = Val tlon"
    "institution_latitude (attributes obj) = Val tlat"
    "slon \<noteq> NaN" "slat \<noteq> NaN" "tlon \<noteq> NaN" "tlat \<noteq> NaN"
proof -
  from assms obtain slon slat tlon tlat where
    "longitude (attributes obj) = Val slon" "latitude (attributes obj) = Val slat"
    "institution_longitude (attributes obj) = Val tlon"
    "institution_latitude (attributes obj) = Val tlat"
    "slon \<noteq> NaN" "slat \<noteq> NaN" "tlon \<noteq> NaN" "tlat \<noteq> NaN"
    unfolding valid_coords_def
    by (cases "longitude (attributes obj)"; cases "latitude (attributes obj)";
        cases "institution_longitude (attributes obj)";
        cases "institution_latitude (attributes obj)") auto
  then show thesis using that by (simp add: coords_def)
qed

lemma clusterArcs_step_cases:
  assumes "valid_coords obj"
  obtains (skip) "unmoved obj" "clusterArcs_step toStr m obj = m"
  | (create) key src tgt where "\<not> unmoved obj" "map_get m key = None"
      "clusterArcs_step toStr m obj =
         map_set m key \<lparr>arc_id = key, sourcePosition = src, targetPosition = tgt,
           arc_count = 1, arc_objects = [obj], level = Some Object\<rparr>"
  | (add) key c where "\<not> unmoved obj" "map_get m key = Some c"
      "clusterArcs_step toStr m obj = map_set m key (bump obj c)"
proof -
  from assms obtain slon slat tlon tlat where c:
    "coords obj = Some (slon, slat, tlon, tlat)"
    "longitude (attributes obj) = Val slon" "latitude (attributes obj) = Val slat"
    "institution_longitude (attributes obj) = Val tlon"
    "institution_latitude (attributes obj) = Val tlat"
    "slon \<noteq> NaN" "slat \<noteq> NaN" "tlon \<noteq> NaN" "tlat \<noteq> NaN"
    by (rule coords_valid)
  have same: "unmoved obj \<longleftrightarrow> strict_eq slon tlon \<and> strict_eq slat tlat"
    using c by (auto simp: unmoved_def strict_eq_def)
  show thesis
  proof (cases "unmoved obj")
    case True
    with same c(1) have "clusterArcs_step toStr m obj = m"
      by (simp add: clusterArcs_step_def)
    with True show thesis by (rule skip)
  next
    case False
    let ?key = "arc_key toStr (slon, slat) (tlon, tlat)"
    show thesis
    proof (cases "map_get m ?key")
      case None
      have "clusterArcs_step toStr m obj =
         map_set m ?key \<lparr>arc_id = ?key, sourcePosition = (slon, slat),
           targetPosition = (tlon, tlat), arc_count = 1, arc_objects = [obj],
           level = Some Object\<rparr>"
        using False same c(1) None
        by (cases "strict_eq slon tlon") (simp_all add: clusterArcs_step_def Let_def)
      with False None show thesis by (rule create)
    next
      case (Some cl)
      have "clusterArcs_step toStr m obj = map_set m ?key (bump obj cl)"
        using False same c(1) Some
        by (cases "strict_eq slon tlon") (simp_all add: clusterArcs_step_def Let_def bump_def)
      with False Some show thesis by (rule add)
    qed
  qed
qed

lemma clusterArcsByCity_step_cases:
  assumes "valid_coords obj"
  obtains (skip) "clusterArcsByCity_step m obj = m"
  | (create) key src tgt where "map_get m key = None"
      "clusterArcsByCity_step m obj =
         map_set m key \<lparr>arc_id = key, sourcePosition = src, targetPosition = tgt,
           arc_count = 1, arc_objects = [obj], level = Some City\<rparr>"
  | (add) key c where "map_get m key = Some c"
      "clusterArcsByCity_step m obj = map_set m key (bump obj c)"
proof -
  from assms obtain slon slat tlon tlat where c: "coords obj = Some (slon, slat, tlon, tlat)"
    by (rule coords_valid)
  let ?s = "str_or (city_en (attributes obj)) ''Unknown''"
  let ?t = "str_or (institution_city_en (attributes obj)) ''Unknown''"
  show thesis
  proof (cases "?s = ''Unknown'' \<or> ?t = ''Unknown'' \<or> ?s = ?t")
    case True
    then have "clusterArcsByCity_step m obj = m"
      unfolding clusterArcsByCity_step_def Let_def by (rule if_P)
    then show thesis by (rule skip)
  next
    case False
    let ?key = "?s @ ''-to-'' @ ?t"
    have step: "clusterArcsByCity_step m obj =
        (case map_get m ?key of
           Some cluster \<Rightarrow> map_set m ?key (bump obj cluster)
         | None \<Rightarrow> map_set m ?key \<lparr>arc_id = ?key, sourcePosition = (slon, slat),
             targetPosition = (tlon, tlat), arc_count = 1, arc_objects = [obj],
             level = Some City\<rparr>)"
      unfolding clusterArcsByCity_step_def Let_def bump_def if_not_P [OF False] c
      by simp
    show thesis
    proof (cases "map_get m ?key")
      case None
      with step show thesis by (intro create [of ?key "(slon, slat)" "(tlon, tlat)"]) simp_all
    next
      case (Some cl)
      with step show thesis by (intro add [of ?key cl]) simp_all
    qed
  qed
qed

lemma clusterArcs_step_values:
  assumes inv: "\<forall>a \<in> set (map_values m). P a"
    and valid: "valid_coords obj"
    and fresh: "\<And>key src tgt l. \<not> unmoved obj \<Longrightarrow>
      P \<lparr>arc_id = key, sourcePosition = src, targetPosition = tgt,
         arc_count = 1, arc_objects = [obj], level = l\<rparr>"
    and more: "\<And>c. \<not> unmoved obj \<Longrightarrow> P c \<Longrightarrow> P (bump obj c)"
  shows "\<forall>a \<in> set (map_values (clusterArcs_step toStr m obj)). P a"
  using valid
proof (cases rule: clusterArcs_step_cases [where toStr = toStr and m = m])
  case skip
  show ?thesis unfolding skip(2) by (rule inv)
next
  case (create key src tgt)
  show ?thesis unfolding create(3)
    by (rule values_invariant [OF inv fresh [OF create(1)]])
next
  case (add key c)
  have "P c" using map_get_value [OF add(2)] inv by simp
  then have "P (bump obj c)" by (rule more [OF add(1)])
  then show ?thesis unfolding add(3) by (rule values_invariant [OF inv])
qed

lemma clusterArcsByCity_step_values:
  assumes inv: "\<forall>a \<in> set (map_values m). P a"
    and valid: "valid_coords obj"
    and fresh: "\<And>key src tgt l.
      P \<lparr>arc_id = key, sourcePosition = src, targetPosition = tgt,
         arc_count = 1, arc_objects = [obj], level = l\<rparr>"
    and more: "\<And>c. P c \<Longrightarrow> P (bump obj c)"
  shows "\<forall>a \<in> set (map_values (clusterArcsByCity_step m obj)). P a"
  using valid
proof (cases rule: clusterArcsByCity_step_cases [where m = m])
  case skip
  show ?thesis unfolding skip by (rule inv)
next
  case (create key src tgt)
  show ?thesis unfolding create(2)
    by (rule values_invariant [OF inv fresh])
next
  case (add key c)
  have "P c" using map_get_value [OF add(1)] inv by simp
  then have "P (bump obj c)" by (rule more)
  then show ?thesis unfolding add(2) by (rule values_invariant [OF inv])
qed

lemma clusterArcs_values:
  assumes fresh: "\<And>obj key src tgt l. valid_coords obj \<Longrightarrow> \<not> unmoved obj \<Longrightarrow>
      P \<lparr>arc_id = key, sourcePosition = src, targetPosition = tgt,
         arc_count = 1, arc_objects = [obj], level = l\<rparr>"
    and more: "\<And>obj c. valid_coords obj \<Longrightarrow> \<not> unmoved obj \<Longrightarrow> P c \<Longrightarrow> P (bump obj c)"
  shows "\<forall>a \<in> set (clusterArcs toStr objects maxArcs). P a"
proof -
  let ?valid = "filter valid_coords objects"
  have "\<forall>a \<in> set (map_values (foldl (clusterArcs_step toStr) [] ?valid)). P a"
  proof (rule foldl_invariant [where P = "\<lambda>m. \<forall>a \<in> set (map_values m). P a"])
    show "\<forall>a \<in> set (map_values ([] :: (string, ClusteredArc) jsmap)). P a"
      by (simp add: map_values_def)
  next
    fix m :: "(string, ClusteredArc) jsmap" and obj
    assume inv: "\<forall>a \<in> set (map_values m). P a" and "obj \<in> set ?valid"
    then have v: "valid_coords obj" by simp
    show "\<forall>a \<in> set (map_values (clusterArcs_step toStr m obj)). P a"
      by (rule clusterArcs_step_values [OF inv v fresh [OF v] more [OF v]])
  qed
  then have "\<forall>a \<in> set (capArcs (map_values (foldl (clusterArcs_step toStr) [] ?valid)) maxArcs). P a"
    using set_capArcs by blast
  then show ?thesis by (simp add: clusterArcs_def Let_def)
qed

lemma clusterArcsByCity_values:
  assumes fresh: "\<And>obj key src tgt l. valid_coords obj \<Longrightarrow>
      P \<lparr>arc_id = key, sourcePosition = src, targetPosition = tgt,
         arc_count = 1, arc_objects = [obj], level = l\<rparr>"
    and more: "\<And>obj c. valid_coords obj \<Longrightarrow> P c \<Longrightarrow> P (bump obj c)"
  shows "\<forall>a \<in> set (clusterArcsByCity objects maxArcs). P a"
proof -
  let ?valid = "filter (\<lambda>obj. valid_coords obj \<and> truthy_str (city_en (attributes obj))) objects"
  have "\<forall>a \<in> set (map_values (foldl clusterArcsByCity_step [] ?valid)). P a"
  proof (rule foldl_invariant [where P = "\<lambda>m. \<forall>a \<in> set (map_values m). P a"])
    show "\<forall>a \<in> set (map_values ([] :: (string, ClusteredArc) jsmap)). P a"
      by (simp add: map_values_def)
  next
    fix m :: "(string, ClusteredArc) jsmap" and obj
    assume inv: "\<forall>a \<in> set (map_values m). P a" and "obj \<in> set ?valid"
    then have v: "valid_coords obj" by simp
    show "\<forall>a \<in> set (map_values (clusterArcsByCity_step m obj)). P a"
      by (rule clusterArcsByCity_step_values [OF inv v fresh [OF v] more [OF v]])
  qed
  then have "\<forall>a \<in> set (capArcs (map_values (foldl clusterArcsByCity_step [] ?valid)) maxArcs). P a"
    using set_capArcs by blast
  then show ?thesis by (simp add: clusterArcsByCity_def Let_def)
qed

subsection \<open>The cap\<close>

lemma capArcs_PosInf: "capArcs arcs PosInf = arcs"
  by (simp add: capArcs_def num_gt_def)

lemma capArcs_Nil: "capArcs [] maxArcs = []"
  by (cases maxArcs) (simp_all add: capArcs_def sort_by_def Let_def)

lemma clusterArcs_uncapped:
  "clusterArcs toStr objects PosInf
     = map_values (foldl (clusterArcs_step toStr) [] (filter valid_coords objects))"
  by (simp add: clusterArcs_def Let_def capArcs_PosInf map_values_def)

lemma clusterArcs_cap:
  "clusterArcs toStr objects maxArcs = capArcs (clusterArcs toStr objects PosInf) maxArcs"
  by (simp add: clusterArcs_def Let_def capArcs_PosInf capArcs_Nil)

lemma clusterArcsByCity_cap:
  "clusterArcsByCity objects maxArcs = capArcs (clusterArcsByCity objects PosInf) maxArcs"
  by (simp add: clusterArcsByCity_def Let_def capArcs_PosInf capArcs_Nil)

lemma insert_by_insort:
  "insert_by (\<lambda>a b. int (arc_count b) - int (arc_count a)) x ys
     = insort_key (\<lambda>a. - int (arc_count a)) x ys"
  by (induction ys) auto

lemma sort_by_sort_key:
  "sort_by (\<lambda>a b. int (arc_count b) - int (arc_count a)) xs
     = sort_key (\<lambda>a. - int (arc_count a)) xs"
  by (induction xs) (simp_all add: sort_by_def insert_by_insort)

lemma slice0_positive: "0 < r \<Longrightarrow> slice0 xs (Fin r) = take (nat \<lfloor>r\<rfloor>) xs"
  by (simp add: trunc_def Let_def)

lemma capArcs_positive:
  "0 < r \<Longrightarrow> capArcs arcs (Fin r) =
     (if r < real (length arcs) then take (nat \<lfloor>r\<rfloor>) (sort_key (\<lambda>a. - int (arc_count a)) arcs)
      else arcs)"
  by (simp add: capArcs_def num_gt_def slice0_positive sort_by_sort_key del: slice0.simps)

lemma top_by_count_take:
  assumes "k < length xs"
  shows "top_by_count k xs (take k (sort_key (\<lambda>a. - int (arc_count a)) xs))"
proof -
  let ?f = "\<lambda>a. - int (arc_count a)"
  let ?S = "sort_key ?f xs"
  have split: "?S = take k ?S @ drop k ?S" by simp
  have "sorted (map ?f ?S)" by (rule sorted_sort_key)
  then have sorted: "sorted_wrt (\<lambda>a b. arc_count b \<le> arc_count a) ?S"
    by (simp add: sorted_map) 
  then have "sorted_wrt (\<lambda>a b. arc_count b \<le> arc_count a) (take k ?S @ drop k ?S)"
    by simp
  then have s1: "sorted_wrt (\<lambda>a b. arc_count b \<le> arc_count a) (take k ?S)"
    and s2: "\<forall>y \<in> set (take k ?S). \<forall>z \<in> set (drop k ?S). arc_count z \<le> arc_count y"
    unfolding sorted_wrt_append by blast+
  have m: "mset (take k ?S @ drop k ?S) = mset xs" by simp
  have stable: "prefix (filter (\<lambda>a. arc_count a = c) (take k ?S)) (filter (\<lambda>a. arc_count a = c) xs)" for c
  proof -
    have "filter (\<lambda>a. ?f a = - int c) ?S = filter (\<lambda>a. ?f a = - int c) xs"
      by (rule sort_key_stable)
    then have "filter (\<lambda>a. arc_count a = c) xs = filter (\<lambda>a. arc_count a = c) (take k ?S @ drop k ?S)"
      by simp
    then show ?thesis
      unfolding filter_append by (metis prefixI)
  qed
  have "length (take k ?S) = k" using assms by simp
  with s1 s2 m stable show ?thesis
    unfolding top_by_count_def by blast
qed

lemma capped_top_by_count:
  assumes "0 < r"
  shows "real (length (capArcs arcs (Fin r))) \<le> r \<and>
         (r < real (length arcs) \<longrightarrow> top_by_count (nat \<lfloor>r\<rfloor>) arcs (capArcs arcs (Fin r)))"
proof (cases "r < real (length arcs)")
  case True
  let ?ys = "take (nat \<lfloor>r\<rfloor>) (sort_key (\<lambda>a. - int (arc_count a)) arcs)"
  have "real_of_int \<lfloor>r\<rfloor> < real (length arcs)"
    using True of_int_floor_le [of r] by linarith
  then have lt: "nat \<lfloor>r\<rfloor> < length arcs" using assms by linarith
  have eq: "capArcs arcs (Fin r) = ?ys"
    using True assms by (simp add: capArcs_positive)
  have "length ?ys = nat \<lfloor>r\<rfloor>" using lt by simp
  moreover have "real (nat \<lfloor>r\<rfloor>) \<le> r" using assms by simp
  ultimately have "real (length ?ys) \<le> r" by simp
  with top_by_count_take [OF lt] show ?thesis unfolding eq by simp
next
  case False
  with assms show ?thesis by (simp add: capArcs_positive)
qed

lemma slice0_nonpositive:
  assumes "r \<le> 0"
  shows "slice0 xs (Fin r) = (if -1 < r then [] else take (length xs - nat (- \<lceil>r\<rceil>)) xs)"
proof (cases "r = 0")
  case True
  then show ?thesis by (simp add: trunc_def)
next
  case False
  with assms have neg: "r < 0" by simp
  then have t: "trunc r = \<lceil>r\<rceil>" by (simp add: trunc_def)
  show ?thesis
  proof (cases "-1 < r")
    case True
    with neg have "\<lceil>r\<rceil> = 0" by (simp add: ceiling_eq_iff)
    with t True show ?thesis by simp
  next
    case False
    then have "\<lceil>r\<rceil> \<le> -1" by (simp add: ceiling_le_iff)
    then have "\<lceil>r\<rceil> < 0" "nat (int (length xs) + \<lceil>r\<rceil>) = length xs - nat (- \<lceil>r\<rceil>)"
      by linarith+
    with t False show ?thesis by (simp add: Let_def)
  qed
qed

lemma clusterArcs_NegInf: "clusterArcs toStr objects NegInf = []"
  by (subst clusterArcs_cap) (simp add: capArcs_def num_gt_def)

lemma clusterArcs_nonpositive:
  assumes "r \<le> 0"
  shows "clusterArcs toStr objects (Fin r) =
     (if -1 < r then []
      else take (length (clusterArcs toStr objects PosInf) - nat (- \<lceil>r\<rceil>))
             (sort_by (\<lambda>a b. int (arc_count b) - int (arc_count a))
                (clusterArcs toStr objects PosInf)))"
proof -
  let ?U = "clusterArcs toStr objects PosInf"
  let ?S = "sort_by (\<lambda>a b. int (arc_count b) - int (arc_count a)) ?U"
  have len: "length ?S = length ?U" by (simp add: sort_by_sort_key)
  show ?thesis
  proof (cases "r < real (length ?U)")
    case True
    then have "clusterArcs toStr objects (Fin r) = slice0 ?S (Fin r)"
      by (subst clusterArcs_cap) (simp add: capArcs_def num_gt_def del: slice0.simps)
    then show ?thesis by (simp only: slice0_nonpositive [OF assms] len)
  next
    case False
    with assms have "real (length ?U) \<le> 0" and "r = 0" by linarith+
    then have "r = 0" "?U = []" by simp_all
    moreover from False have "clusterArcs toStr objects (Fin r) = ?U"
      by (subst clusterArcs_cap) (simp add: capArcs_def num_gt_def del: slice0.simps)
    ultimately show ?thesis by simp
  qed
qed

subsection \<open>The sum of the counts\<close>

lemma sum_map_set_fresh:
  "map_get m k = None \<Longrightarrow>
   sum_list (map f (map_values (map_set m k v))) = sum_list (map f (map_values m)) + (f v :: nat)"
  unfolding map_get_def map_values_def
  by (induction m) (auto split: if_splits)

lemma sum_map_set_old:
  "map_get m k = Some c \<Longrightarrow>
   sum_list (map f (map_values (map_set m k v))) + f c = sum_list (map f (map_values m)) + (f v :: nat)"
  unfolding map_get_def map_values_def
  by (induction m) (auto split: if_splits)

lemma clusterArcs_step_sum:
  assumes "valid_coords obj"
  shows "sum_list (map arc_count (map_values (clusterArcs_step toStr m obj)))
       = sum_list (map arc_count (map_values m)) + (if unmoved obj then 0 else 1)"
  using assms
proof (cases rule: clusterArcs_step_cases [where toStr = toStr and m = m])
  case skip
  then show ?thesis by simp
next
  case (create key src tgt)
  show ?thesis unfolding create(3) using create(1) sum_map_set_fresh [OF create(2), of arc_count]
    by simp
next
  case (add key c)
  show ?thesis unfolding add(3) using add(1) sum_map_set_old [OF add(2), of arc_count "bump obj c"]
    by (simp add: bump_def)
qed

lemma clusterArcs_fold_sum:
  assumes "\<forall>obj \<in> set xs. valid_coords obj"
  shows "sum_list (map arc_count (map_values (foldl (clusterArcs_step toStr) m xs)))
       = sum_list (map arc_count (map_values m)) + length (filter (\<lambda>obj. \<not> unmoved obj) xs)"
  using assms
proof (induction xs arbitrary: m)
  case Nil
  show ?case by simp
next
  case (Cons x xs)
  then have "valid_coords x" by simp
  from clusterArcs_step_sum [OF this, of toStr m] Cons show ?case by simp
qed

lemma length_filter_not:
  "length (filter (\<lambda>x. \<not> P x) xs) = length xs - length (filter P xs)"
  using sum_length_filter_compl [of P xs] by simp

subsection \<open>The bounds filter\<close>

lemma in_bounds_valid: "valid_coords obj \<Longrightarrow> in_bounds b obj = origin_within b obj"
  by (cases "latitude (attributes obj)"; cases "longitude (attributes obj)")
     (simp_all add: valid_coords_def in_bounds_def origin_within_def num_ge_def)

lemma clusterArcs_filter_cong:
  assumes "\<And>obj. valid_coords obj \<Longrightarrow> P obj = Q obj"
  shows "clusterArcs toStr (filter P objects) maxArcs = clusterArcs toStr (filter Q objects) maxArcs"
proof -
  have "filter valid_coords (filter P objects) = filter valid_coords (filter Q objects)"
    unfolding filter_filter using assms by (intro filter_cong) auto
  then show ?thesis by (simp add: clusterArcs_def)
qed

lemma num_lt_not_le: "num_lt a b \<Longrightarrow> \<not> num_le b a"
  by (cases a; cases b) simp_all

lemma num_le_trans_Fin: "num_le z (Fin x) \<Longrightarrow> x \<le> y \<Longrightarrow> num_le z (Fin y)"
  by (cases z) simp_all

lemma clusterArcs_Nil: "clusterArcs toStr [] maxArcs = []"
  by (simp add: clusterArcs_def)

lemma in_bounds_NaN:
  "north b = NaN \<or> south b = NaN \<or> east b = NaN \<or> west b = NaN \<Longrightarrow> \<not> in_bounds b obj"
  by (cases "to_number (latitude (attributes obj))"; cases "to_number (longitude (attributes obj))")
     (auto simp: in_bounds_def num_ge_def)

subsection \<open>The aggregation of one country\<close>

lemma map_get_map_set: "map_get (map_set m k v) k' = (if k' = k then Some v else map_get m k')"
  by (simp add: map_get_def map_of_map_set)

lemma map_set_twice: "map_set (map_set m k v) k w = map_set m k w"
  by (induction m) auto

lemma aggregate_step_skip: "\<not> labelled obj \<Longrightarrow> aggregate_step m obj = m"
  unfolding aggregate_step_def labelled_def label_def Let_def by (rule if_P) simp

lemma aggregate_step_labelled:
  assumes "labelled obj"
  shows "aggregate_step m obj =
     map_set m (label obj)
       (entry_step (case map_get m (label obj) of
                      None \<Rightarrow> fresh_aggregation (label obj) | Some a \<Rightarrow> a) obj)"
proof -
  let ?c = "label obj"
  have n: "\<not> (?c = [] \<or> ?c = ''Unknown'')" using assms by (simp add: labelled_def)
  show ?thesis
  proof (cases "map_get m ?c")
    case None
    then have h: "\<not> map_has m ?c" by (simp add: map_has_def map_get_def)
    have "aggregate_step m obj =
        map_set (map_set m ?c (fresh_aggregation ?c)) ?c (entry_step (fresh_aggregation ?c) obj)"
      unfolding aggregate_step_def Let_def label_def [symmetric] if_not_P [OF n] if_P [OF h]
        fresh_aggregation_def [symmetric]
      by (simp add: map_get_map_set fresh_aggregation_def entry_step_def centroid_step_def Let_def)
    then show ?thesis using None by (simp add: map_set_twice)
  next
    case (Some a)
    then have h: "\<not> \<not> map_has m ?c" by (simp add: map_has_def map_get_def)
    have "aggregate_step m obj = map_set m ?c (entry_step a obj)"
      unfolding aggregate_step_def Let_def label_def [symmetric] if_not_P [OF n] if_not_P [OF h]
      by (simp add: Some entry_step_def centroid_step_def Let_def)
    then show ?thesis using Some by simp
  qed
qed

lemma labelled_cong: "label x = label y \<Longrightarrow> labelled x = labelled y"
  by (simp add: labelled_def)

lemma label_Val:
  assumes "c \<noteq> []" and "c \<noteq> ''Unknown''"
  shows "label obj = c \<longleftrightarrow> country_en (attributes obj) = Val c"
  using assms by (cases "country_en (attributes obj)") (auto simp: label_def)

lemma map_get_aggregate_step:
  "map_get (aggregate_step m obj) c =
     (if labelled obj \<and> label obj = c
      then Some (entry_step (case map_get m c of
                               None \<Rightarrow> fresh_aggregation c | Some a \<Rightarrow> a) obj)
      else map_get m c)"
proof (cases "labelled obj")
  case True
  show ?thesis
    unfolding aggregate_step_labelled [OF True] map_get_map_set using True by auto
next
  case False
  then show ?thesis by (simp add: aggregate_step_skip)
qed

lemma aggregation_of_snoc:
  "aggregation_of c (objs @ [x]) =
     (if label x = c then entry_step (aggregation_of c objs) x else aggregation_of c objs)"
  by (simp add: aggregation_of_def)

lemma aggregation_of_none:
  "\<forall>obj \<in> set objs. label obj \<noteq> c \<Longrightarrow> aggregation_of c objs = fresh_aggregation c"
proof -
  assume "\<forall>obj \<in> set objs. label obj \<noteq> c"
  then have "filter (\<lambda>obj. label obj = c) objs = []"
    by (simp add: filter_empty_conv)
  then show ?thesis by (simp add: aggregation_of_def)
qed

lemma map_get_fold_aggregate:
  "map_get (foldl aggregate_step [] objs) c =
     (if \<exists>obj \<in> set objs. labelled obj \<and> label obj = c
      then Some (aggregation_of c objs) else None)"
proof (induction objs rule: rev_induct)
  case Nil
  show ?case by (simp add: map_get_def)
next
  case (snoc x objs)
  let ?m = "foldl aggregate_step [] objs"
  show ?case
  proof (cases "labelled x \<and> label x = c")
    case True
    have "(case map_get ?m c of None \<Rightarrow> fresh_aggregation c | Some a \<Rightarrow> a) = aggregation_of c objs"
    proof (cases "\<exists>obj \<in> set objs. labelled obj \<and> label obj = c")
      case True
      with snoc show ?thesis by simp
    next
      case False
      then have "\<forall>obj \<in> set objs. label obj \<noteq> c"
        using True labelled_cong by blast
      with snoc False show ?thesis by (simp add: aggregation_of_none)
    qed
    with True show ?thesis
      by (simp add: map_get_aggregate_step aggregation_of_snoc)
  next
    case False
    have "map_get (aggregate_step ?m x) c = map_get ?m c"
      unfolding map_get_aggregate_step by (rule if_not_P) (rule False)
    then have "map_get (foldl aggregate_step [] (objs @ [x])) c = map_get ?m c"
      by simp
    also have "\<dots> = (if \<exists>obj \<in> set objs. labelled obj \<and> label obj = c
        then Some (aggregation_of c objs) else None)"
      by (rule snoc)
    also have "\<dots> = (if \<exists>obj \<in> set (objs @ [x]). labelled obj \<and> label obj = c
        then Some (aggregation_of c (objs @ [x])) else None)"
    proof (cases "label x = c")
      case True
      with False have nl: "\<not> labelled x" by simp
      then have "\<not> labelled obj" if "label obj = c" for obj
        using that True labelled_cong by blast
      then show ?thesis by auto
    next
      case False
      then show ?thesis using \<open>\<not> (labelled x \<and> label x = c)\<close>
        by (simp add: aggregation_of_snoc)
    qed
    finally show ?thesis .
  qed
qed

lemma aggregate_step_distinct:
  "distinct (map fst m) \<Longrightarrow> distinct (map fst (aggregate_step m obj))"
  by (cases "labelled obj") (simp_all add: aggregate_step_labelled aggregate_step_skip distinct_map_set)

lemma fold_aggregate_distinct: "distinct (map fst (foldl aggregate_step [] objs))"
  by (induction objs rule: rev_induct) (simp_all add: aggregate_step_distinct)

lemma aggregateByCountry_values:
  "set (aggregateByCountry objects) =
     {aggregation_of (label obj) objects | obj. obj \<in> set objects \<and> labelled obj}"
proof -
  let ?m = "foldl aggregate_step [] objects"
  have eq: "aggregateByCountry objects = map snd ?m"
    by (cases objects) (simp_all add: aggregateByCountry_def map_values_def)
  have mem: "a \<in> set (map snd ?m) \<longleftrightarrow> (\<exists>c. map_get ?m c = Some a)" for a
  proof
    assume "a \<in> set (map snd ?m)"
    then obtain c where "(c, a) \<in> set ?m" by auto
    then have "map_of ?m c = Some a"
      using fold_aggregate_distinct by (simp add: map_of_eq_Some_iff)
    then show "\<exists>c. map_get ?m c = Some a" by (auto simp: map_get_def)
  next
    assume "\<exists>c. map_get ?m c = Some a"
    then show "a \<in> set (map snd ?m)"
      using map_get_value by (fastforce simp: map_values_def)
  qed
  show ?thesis
  proof (intro set_eqI iffI)
    fix a
    assume "a \<in> set (aggregateByCountry objects)"
    then obtain c where "map_get ?m c = Some a" using mem eq by auto
    then have "\<exists>obj \<in> set objects. labelled obj \<and> label obj = c" and "a = aggregation_of c objects"
      unfolding map_get_fold_aggregate by (simp_all split: if_splits)
    then show "a \<in> {aggregation_of (label obj) objects | obj. obj \<in> set objects \<and> labelled obj}"
      by blast
  next
    fix a
    assume "a \<in> {aggregation_of (label obj) objects | obj. obj \<in> set objects \<and> labelled obj}"
    then obtain obj where o: "obj \<in> set objects" "labelled obj" "a = aggregation_of (label obj) objects"
      by blast
    then have "\<exists>x \<in> set objects. labelled x \<and> label x = label obj" by blast
    then have "map_get ?m (label obj) = Some a"
      unfolding map_get_fold_aggregate using o(3) by simp
    then show "a \<in> set (aggregateByCountry objects)" using mem eq by auto
  qed
qed

lemma fold_entry_step:
  "foldl entry_step a rs =
     a\<lparr>agg_count := agg_count a + length rs,
       agg_objects := agg_objects a @ rs,
       agg_latitude := fst (foldl centroid_step (agg_latitude a, agg_longitude a) rs),
       agg_longitude := snd (foldl centroid_step (agg_latitude a, agg_longitude a) rs)\<rparr>"
proof (induction rs rule: rev_induct)
  case Nil
  show ?case by simp
next
  case (snoc x rs)
  show ?case by (simp add: snoc) (simp add: entry_step_def)
qed

lemma aggregation_of_fields:
  "country (aggregation_of c objs) = c"
  "agg_objects (aggregation_of c objs) = filter (\<lambda>obj. label obj = c) objs"
  "agg_count (aggregation_of c objs) = length (filter (\<lambda>obj. label obj = c) objs)"
  "(agg_latitude (aggregation_of c objs), agg_longitude (aggregation_of c objs))
     = foldl centroid_step (Fin 0, Fin 0) (filter (\<lambda>obj. label obj = c) objs)"
  by (simp_all add: aggregation_of_def fold_entry_step fresh_aggregation_def)

lemma centroid_step_zero: "zero_coordinate obj \<Longrightarrow> centroid_step p obj = p"
  by (auto simp: zero_coordinate_def centroid_step_def Let_def)

lemma fold_centroid_step_filter:
  "foldl centroid_step p (filter (\<lambda>obj. \<not> zero_coordinate obj) rs) = foldl centroid_step p rs"
  by (induction rs arbitrary: p) (simp_all add: centroid_step_zero)

lemma fold_centroid_step_zero:
  "\<forall>obj \<in> set rs. zero_coordinate obj \<Longrightarrow> foldl centroid_step p rs = p"
  by (induction rs arbitrary: p) (simp_all add: centroid_step_zero)

lemma aggregateByCountry_member:
  assumes "agg \<in> set (aggregateByCountry objects)"
  shows "country agg \<noteq> []" "country agg \<noteq> ''Unknown''"
    "agg = aggregation_of (country agg) objects"
    "(\<lambda>obj. label obj = country agg) = (\<lambda>obj. country_en (attributes obj) = Val (country agg))"
proof -
  from assms obtain obj where o: "obj \<in> set objects" "labelled obj"
    "agg = aggregation_of (label obj) objects"
    unfolding aggregateByCountry_values by blast
  then have c: "country agg = label obj" by (simp add: aggregation_of_fields)
  with o(2) show n: "country agg \<noteq> []" "country agg \<noteq> ''Unknown''"
    by (simp_all add: labelled_def)
  from o(3) c show "agg = aggregation_of (country agg) objects" by simp
  show "(\<lambda>obj. label obj = country agg) = (\<lambda>obj. country_en (attributes obj) = Val (country agg))"
    using label_Val [OF n] by auto
qed

subsection \<open>Evaluation of the examples\<close>

lemma digits_small: "n < 10 \<Longrightarrow> digits n = [digit_char n]"
  by (simp add: digits.simps)

lemma digits_large: "\<not> n < 10 \<Longrightarrow> digits n = digits (n div 10) @ [digit_char (n mod 10)]"
  by (subst digits.simps) simp

lemmas toFixed2_eval = toFixed2_def Let_def digits_small digits_large digit_char_def

lemmas example_defs = museum_object_def nearby_def moved_def stayed_def lyon_berlin_def
  accra_london_def three_objects_def france_def kenya_def nowhere_def france_example_def
  through_origin_def on_the_axes_def view_def nan_south_def from_infinity_def

lemmas clusterArcs_eval = clusterArcs_def valid_coords_def coords_def clusterArcs_step_def
  Let_def strict_eq_def map_get_def map_values_def capArcs_def num_gt_def arc_key_def
  sort_by_def trunc_def

lemmas clusterArcsByCity_eval = clusterArcsByCity_def clusterArcsByCity_step_def valid_coords_def
  coords_def Let_def map_get_def map_values_def capArcs_def num_gt_def sort_by_def trunc_def

lemmas aggregate_eval = aggregateByCountry_def aggregate_step_def Let_def map_has_def
  map_get_def map_values_def strict_eq_def

lemma clusterArcs_moved_stayed:
  "map arc_objects (clusterArcs plain [moved, stayed] (Fin 2000)) = [[moved]]"
  by (simp add: clusterArcs_eval example_defs)

lemma hd_clusterArcs_moved_stayed:
  "hd (clusterArcs plain [moved, stayed] (Fin 2000))
     \<in> set (clusterArcs plain [moved, stayed] (Fin 2000))"
proof -
  have "clusterArcs plain [moved, stayed] (Fin 2000) \<noteq> []"
    using clusterArcs_moved_stayed by auto
  then show ?thesis by simp
qed

lemma clusterArcs_three_objects:
  "map arc_count (clusterArcs plain three_objects PosInf) = [1, 2]"
  by (simp add: clusterArcs_eval example_defs toFixed2_eval)

lemma clusterArcsByCity_three_objects:
  "map arc_count (clusterArcsByCity three_objects PosInf) = [1, 2]"
  by (simp add: clusterArcsByCity_eval example_defs)

lemma length_three_objects:
  "length (clusterArcs plain three_objects PosInf) = 2"
  "length (clusterArcsByCity three_objects PosInf) = 2"
  using arg_cong [OF clusterArcs_three_objects, of length]
    arg_cong [OF clusterArcsByCity_three_objects, of length]
  by simp_all

lemma aggregateByCountry_france_example:
  "aggregateByCountry france_example =
     [\<lparr>country = ''France'', agg_count = 2, agg_latitude = Fin 48.5, agg_longitude = Fin 2.5,
       agg_objects = [france 1 (2, 48), france 2 (3, 49)]\<rparr>]"
  by (simp add: aggregate_eval example_defs)

lemma aggregateByCountry_on_the_axes:
  "aggregateByCountry on_the_axes =
     [\<lparr>country = ''Kenya'', agg_count = 2, agg_latitude = Fin 0, agg_longitude = Fin 0,
       agg_objects = [kenya 1 (37, 0), kenya 3 (36, 0)]\<rparr>,
      \<lparr>country = ''France'', agg_count = 3, agg_latitude = Fin 48.5, agg_longitude = Fin 2.5,
       agg_objects = [france 2 (2, 48), france 4 (0, 47), france 5 (3, 49)]\<rparr>]"
  by (simp add: aggregate_eval example_defs)

lemma on_the_axes_filtered:
  "filter (\<lambda>obj. \<not> zero_coordinate obj) on_the_axes = [france 2 (2, 48), france 5 (3, 49)]"
  by (simp add: zero_coordinate_def example_defs)

lemma aggregateByCountry_off_the_axes:
  "aggregateByCountry [france 2 (2, 48), france 5 (3, 49)] =
     [\<lparr>country = ''France'', agg_count = 2, agg_latitude = Fin 48.5, agg_longitude = Fin 2.5,
       agg_objects = [france 2 (2, 48), france 5 (3, 49)]\<rparr>]"
  by (simp add: aggregate_eval example_defs)

section \<open>The claims\<close>

text \<open>
  C1, as the specification has it: a record whose origin and destination are equal
  after rounding to two decimals is in the members of no arc of \<open>clusterArcs\<close>. The
  source compares the coordinates as they are stored, before rounding: \<open>nearby\<close> has
  the same rounded origin and destination longitude (and the same latitude), and is the
  member of an arc.
\<close>

theorem clusterArcs_keeps_rounded_equal:
  "toFixed2 plain (Fin 10) = toFixed2 plain (Fin (10 + 1 / 512)) \<and>
   map arc_objects (clusterArcs plain [nearby] (Fin 2000)) = [[nearby]]"
proof -
  have "toFixed2 plain (Fin 10) = ''10.00''"
    and "toFixed2 plain (Fin (10 + 1 / 512)) = ''10.00''"
    by (simp_all add: toFixed2_eval)
  moreover have "map arc_objects (clusterArcs plain [nearby] (Fin 2000)) = [[nearby]]"
    by (simp add: clusterArcs_eval example_defs)
  ultimately show ?thesis by simp
qed

text \<open>
  C1, amended: a record whose origin and destination coordinates are equal as stored
  (before rounding) is dropped by \<open>clusterArcs\<close>: it is in the members of no arc
  that \<open>clusterArcs\<close> returns, whatever the other records and the cap.
\<close>

theorem clusterArcs_drops_unmoved:
  assumes "unmoved obj" and "arc \<in> set (clusterArcs toStr objects maxArcs)"
  shows "obj \<notin> set (arc_objects arc)"
proof -
  have "\<forall>a \<in> set (clusterArcs toStr objects maxArcs). \<forall>x \<in> set (arc_objects a). \<not> unmoved x"
    by (rule clusterArcs_values) (simp_all add: bump_def)
  with assms show ?thesis by blast
qed

theorem clusterArcs_drops_unmoved_witness:
  "unmoved stayed \<and>
   hd (clusterArcs plain [moved, stayed] (Fin 2000))
     \<in> set (clusterArcs plain [moved, stayed] (Fin 2000)) \<and>
   stayed \<notin> set (arc_objects (hd (clusterArcs plain [moved, stayed] (Fin 2000))))"
proof -
  have u: "unmoved stayed" by (simp add: unmoved_def example_defs)
  note m = hd_clusterArcs_moved_stayed
  show ?thesis using u m clusterArcs_drops_unmoved [OF u m] by simp
qed

text \<open>
  C2, as the specification has it: with \<open>maxArcs <= 0\<close>, \<open>clusterArcs\<close> returns what it
  returns without a cap. With \<open>maxArcs = 0\<close> and one arc, the source finds more arcs
  than \<open>maxArcs\<close> and returns \<open>slice(0, 0)\<close>, the empty list.
\<close>

theorem clusterArcs_zero_cap_is_empty:
  "num_le (Fin 0) (Fin 0) \<and>
   clusterArcs plain [moved] (Fin 0) = [] \<and>
   map arc_objects (clusterArcs plain [moved] PosInf) = [[moved]]"
  by (simp add: clusterArcs_eval example_defs)

text \<open>
  C2, amended: with \<open>maxArcs <= 0\<close>, \<open>clusterArcs\<close> returns the empty list when
  \<open>maxArcs\<close> is \<open>-Infinity\<close> or \<open>maxArcs > -1\<close>; otherwise it returns the arcs, sorted
  by descending count, without the last \<open>n\<close> of them, where \<open>n\<close> is \<open>-maxArcs\<close> rounded
  down (the negative end of \<open>slice\<close> counts from the end of the array).
\<close>

theorem clusterArcs_nonpositive_cap:
  assumes "r \<le> 0"
  shows "clusterArcs toStr objects NegInf = [] \<and>
         clusterArcs toStr objects (Fin r) =
           (if -1 < r then []
            else take (length (clusterArcs toStr objects PosInf) - nat (- \<lceil>r\<rceil>))
                   (sort_by (\<lambda>a b. int (arc_count b) - int (arc_count a))
                      (clusterArcs toStr objects PosInf)))"
  using clusterArcs_NegInf clusterArcs_nonpositive [OF assms] by simp

theorem clusterArcs_nonpositive_cap_witness:
  "(- 2 :: real) \<le> 0 \<and> (- 1 :: real) \<le> 0 \<and> (0 :: real) \<le> 0 \<and>
   clusterArcs plain three_objects (Fin 0) = [] \<and>
   clusterArcs plain three_objects (Fin (- 2)) = [] \<and>
   clusterArcs plain three_objects (Fin (- 1)) =
     take 1 (sort_by (\<lambda>a b. int (arc_count b) - int (arc_count a))
               (clusterArcs plain three_objects PosInf))"
  using clusterArcs_nonpositive_cap [of 0 plain three_objects]
    clusterArcs_nonpositive_cap [of "- 1" plain three_objects]
    clusterArcs_nonpositive_cap [of "- 2" plain three_objects]
  by (simp add: length_three_objects ceiling_minus)

text \<open>
  C3: for a non-empty list of records, \<open>getArcsByZoomLevel\<close> returns, for \<open>zoom <= 4\<close>,
  the object-level clustering of all records capped at 100; for \<open>4 < zoom <= 8\<close>, the
  city-level clustering of all records capped at 500; for \<open>zoom > 8\<close>, the object-level
  clustering, capped at 2000 if \<open>zoom >= 12\<close> and at 1000 otherwise, of the records whose
  origin lies within the bounds when bounds are given, and of all records otherwise.
\<close>

theorem getArcsByZoomLevel_bands:
  assumes "objects \<noteq> []"
  shows "(num_le zoom (Fin 4) \<longrightarrow>
            getArcsByZoomLevel toStr objects zoom bounds = clusterArcs toStr objects (Fin 100)) \<and>
         (num_gt zoom (Fin 4) \<and> num_le zoom (Fin 8) \<longrightarrow>
            getArcsByZoomLevel toStr objects zoom bounds = clusterArcsByCity objects (Fin 500)) \<and>
         (num_gt zoom (Fin 8) \<longrightarrow>
            getArcsByZoomLevel toStr objects zoom bounds =
              clusterArcs toStr
                (case bounds of None \<Rightarrow> objects | Some b \<Rightarrow> filter (origin_within b) objects)
                (if num_ge zoom (Fin 12) then Fin 2000 else Fin 1000))"
proof (intro conjI impI)
  assume "num_le zoom (Fin 4)"
  with assms show "getArcsByZoomLevel toStr objects zoom bounds = clusterArcs toStr objects (Fin 100)"
    by (simp add: getArcsByZoomLevel_def)
next
  assume "num_gt zoom (Fin 4) \<and> num_le zoom (Fin 8)"
  then have "\<not> num_le zoom (Fin 4)" "num_le zoom (Fin 8)"
    by (simp_all add: num_gt_def num_lt_not_le)
  with assms show "getArcsByZoomLevel toStr objects zoom bounds = clusterArcsByCity objects (Fin 500)"
    by (simp add: getArcsByZoomLevel_def)
next
  assume "num_gt zoom (Fin 8)"
  then have 8: "\<not> num_le zoom (Fin 8)" by (simp add: num_gt_def num_lt_not_le)
  then have 4: "\<not> num_le zoom (Fin 4)" using num_le_trans_Fin [of zoom 4 8] by auto
  have "clusterArcs toStr (case bounds of None \<Rightarrow> objects | Some b \<Rightarrow> filter (in_bounds b) objects) k
      = clusterArcs toStr (case bounds of None \<Rightarrow> objects | Some b \<Rightarrow> filter (origin_within b) objects) k"
    for k
    by (cases bounds) (simp_all add: clusterArcs_filter_cong [OF in_bounds_valid])
  with assms 4 8 show "getArcsByZoomLevel toStr objects zoom bounds =
      clusterArcs toStr
        (case bounds of None \<Rightarrow> objects | Some b \<Rightarrow> filter (origin_within b) objects)
        (if num_ge zoom (Fin 12) then Fin 2000 else Fin 1000)"
    by (simp add: getArcsByZoomLevel_def Let_def)
qed

theorem getArcsByZoomLevel_bands_witness:
  "three_objects \<noteq> [] \<and>
   num_le (Fin 2) (Fin 4) \<and>
   getArcsByZoomLevel plain three_objects (Fin 2) (Some view)
     = clusterArcs plain three_objects (Fin 100) \<and>
   (num_gt (Fin 6) (Fin 4) \<and> num_le (Fin 6) (Fin 8)) \<and>
   getArcsByZoomLevel plain three_objects (Fin 6) (Some view)
     = clusterArcsByCity three_objects (Fin 500) \<and>
   num_gt (Fin 9) (Fin 8) \<and>
   getArcsByZoomLevel plain three_objects (Fin 9) (Some view)
     = clusterArcs plain (filter (origin_within view) three_objects) (Fin 1000) \<and>
   num_gt (Fin 13) (Fin 8) \<and>
   getArcsByZoomLevel plain three_objects (Fin 13) None
     = clusterArcs plain three_objects (Fin 2000)"
proof -
  have ne: "three_objects \<noteq> []" by (simp add: three_objects_def)
  show ?thesis
    using ne
      getArcsByZoomLevel_bands [OF ne, of "Fin 2" plain "Some view"]
      getArcsByZoomLevel_bands [OF ne, of "Fin 6" plain "Some view"]
      getArcsByZoomLevel_bands [OF ne, of "Fin 9" plain "Some view"]
      getArcsByZoomLevel_bands [OF ne, of "Fin 13" plain None]
    by (simp add: num_gt_def num_ge_def)
qed

text \<open>
  C4, at an input where the source leaves the running average: three records of France
  at (2, 48), (-2, -48) and (3, 49), as (longitude, latitude). The second record brings
  the centroid to (0, 0), which is also what the source takes for "no centroid yet", so
  that the third record seeds the centroid again: the result is (3, 49), where the
  pairwise average of (0, 0) and (3, 49) is (1.5, 24.5).
\<close>

theorem aggregateByCountry_reseeds_at_origin:
  "map (\<lambda>a. (country a, agg_count a, agg_longitude a, agg_latitude a))
     (aggregateByCountry through_origin) = [(''France'', 3, Fin 3, Fin 49)]"
  by (simp add: aggregate_eval example_defs)

text \<open>
  C5, as the specification has it: without a cap, the counts of the arcs of
  \<open>clusterArcs\<close> add up to the number of arc-eligible records minus the number of
  records without displacement, where a record has no displacement when its origin and
  destination are equal after rounding, and is arc-eligible when its coordinates are
  finite. The source counts otherwise on both sides. \<open>nearby\<close> is arc-eligible and has
  no displacement after rounding, yet it makes an arc of count 1, where the difference
  is 1 - 1 = 0. \<open>from_infinity\<close> is not arc-eligible, yet it passes the filter of the
  source (\<open>isNaN(Infinity)\<close> is false) and makes an arc of count 1, where the difference
  is 0 - 0 = 0.
\<close>

theorem clusterArcs_counts_rounded_equal_and_infinite:
  "sum_list (map arc_count (clusterArcs plain [nearby] PosInf)) = 1 \<and>
   length (filter arc_eligible [nearby]) = 1 \<and>
   length (filter (same_rounded plain) (filter arc_eligible [nearby])) = 1 \<and>
   sum_list (map arc_count (clusterArcs plain [from_infinity] PosInf)) = 1 \<and>
   length (filter arc_eligible [from_infinity]) = 0"
proof -
  have "toFixed2 plain (Fin 10) = ''10.00''"
    and "toFixed2 plain (Fin (10 + 1 / 512)) = ''10.00''"
    by (simp_all add: toFixed2_eval)
  then have "same_rounded plain nearby"
    by (simp add: same_rounded_def coords_def example_defs)
  moreover have "arc_eligible nearby" and "\<not> arc_eligible from_infinity"
    by (simp_all add: arc_eligible_def example_defs)
  moreover have "sum_list (map arc_count (clusterArcs plain [nearby] PosInf)) = 1"
    and "sum_list (map arc_count (clusterArcs plain [from_infinity] PosInf)) = 1"
    by (simp_all add: clusterArcs_eval example_defs)
  ultimately show ?thesis by simp
qed

text \<open>
  C5, amended: without a cap, the counts of the arcs of \<open>clusterArcs\<close> add up to the
  number of records that pass the filter of \<open>clusterArcs\<close> (four coordinates that are
  present and not \<open>NaN\<close>) minus the number of those among them whose origin and
  destination are equal as stored (before rounding).
\<close>

theorem clusterArcs_conserves_count:
  "sum_list (map arc_count (clusterArcs toStr objects PosInf))
     = length (filter valid_coords objects)
       - length (filter unmoved (filter valid_coords objects))"
proof -
  have "sum_list (map arc_count (clusterArcs toStr objects PosInf))
      = length (filter (\<lambda>obj. \<not> unmoved obj) (filter valid_coords objects))"
    unfolding clusterArcs_uncapped
    by (subst clusterArcs_fold_sum) (simp_all add: map_values_def)
  then show ?thesis by (simp only: length_filter_not)
qed

text \<open>
  C6: for a finite cap \<open>maxArcs > 0\<close>, each clusterer returns at most \<open>maxArcs\<close> arcs, and
  when there are more than \<open>maxArcs\<close> arcs without a cap, it returns the \<open>k\<close> arcs with
  the highest counts, in descending order of count, arcs of equal count in the order in
  which they were first met; \<open>k\<close> is \<open>maxArcs\<close> rounded down, \<open>maxArcs\<close> itself when it
  is a whole number.
\<close>

theorem capped_arcs_are_top_by_count:
  assumes "0 < r"
  shows "(real (length (clusterArcs toStr objects (Fin r))) \<le> r \<and>
          (r < real (length (clusterArcs toStr objects PosInf)) \<longrightarrow>
             top_by_count (nat \<lfloor>r\<rfloor>) (clusterArcs toStr objects PosInf)
               (clusterArcs toStr objects (Fin r)))) \<and>
         (real (length (clusterArcsByCity objects (Fin r))) \<le> r \<and>
          (r < real (length (clusterArcsByCity objects PosInf)) \<longrightarrow>
             top_by_count (nat \<lfloor>r\<rfloor>) (clusterArcsByCity objects PosInf)
               (clusterArcsByCity objects (Fin r))))"
  using capped_top_by_count [OF assms, of "clusterArcs toStr objects PosInf"]
    capped_top_by_count [OF assms, of "clusterArcsByCity objects PosInf"]
  unfolding clusterArcs_cap [of toStr objects "Fin r"]
    clusterArcsByCity_cap [of objects "Fin r"]
  by blast

theorem capped_arcs_are_top_by_count_witness:
  "0 < (1 :: real) \<and>
   1 < real (length (clusterArcs plain three_objects PosInf)) \<and>
   1 < real (length (clusterArcsByCity three_objects PosInf)) \<and>
   real (length (clusterArcs plain three_objects (Fin 1))) \<le> 1 \<and>
   top_by_count 1 (clusterArcs plain three_objects PosInf)
     (clusterArcs plain three_objects (Fin 1)) \<and>
   real (length (clusterArcsByCity three_objects (Fin 1))) \<le> 1 \<and>
   top_by_count 1 (clusterArcsByCity three_objects PosInf)
     (clusterArcsByCity three_objects (Fin 1))"
  using capped_arcs_are_top_by_count [of 1 plain three_objects]
  by (simp add: length_three_objects)

text \<open>
  C7, as the specification has it: a \<open>NaN\<close> among the bounds is "no bounds filter". In
  the source every comparison with \<open>NaN\<close> is false, so that at \<open>zoom = 9\<close> the filter
  lets no record through: the result is empty, where it has one arc without bounds.
\<close>

theorem getArcsByZoomLevel_NaN_bounds_filter_all:
  "south nan_south = NaN \<and>
   getArcsByZoomLevel plain [moved] (Fin 9) (Some nan_south) = [] \<and>
   map arc_objects (getArcsByZoomLevel plain [moved] (Fin 9) None) = [[moved]]"
  by (simp add: getArcsByZoomLevel_def in_bounds_def num_ge_def clusterArcs_eval example_defs)

text \<open>
  C7, amended: \<open>getArcsByZoomLevel\<close> returns a list for every zoom and every bounds.
  When a bound is \<open>NaN\<close>: for \<open>zoom <= 8\<close> the result is the one without bounds
  (these bands do not read the bounds); for any other zoom, \<open>NaN\<close> included, no record
  passes the bounds filter and the result is empty. A \<open>NaN\<close> zoom is served by the last
  branch: object-level clustering of the records that pass the bounds filter, capped at
  1000.
\<close>

theorem getArcsByZoomLevel_NaN:
  assumes "north b = NaN \<or> south b = NaN \<or> east b = NaN \<or> west b = NaN"
  shows "(num_le zoom (Fin 8) \<longrightarrow>
            getArcsByZoomLevel toStr objects zoom (Some b)
              = getArcsByZoomLevel toStr objects zoom None) \<and>
         (\<not> num_le zoom (Fin 8) \<longrightarrow> getArcsByZoomLevel toStr objects zoom (Some b) = []) \<and>
         getArcsByZoomLevel toStr objects NaN bounds =
           clusterArcs toStr
             (case bounds of None \<Rightarrow> objects | Some b' \<Rightarrow> filter (in_bounds b') objects)
             (Fin 1000)"
proof (intro conjI impI)
  assume 8: "num_le zoom (Fin 8)"
  show "getArcsByZoomLevel toStr objects zoom (Some b) = getArcsByZoomLevel toStr objects zoom None"
    using 8 by (simp add: getArcsByZoomLevel_def)
next
  assume 8: "\<not> num_le zoom (Fin 8)"
  then have 4: "\<not> num_le zoom (Fin 4)" using num_le_trans_Fin [of zoom 4 8] by auto
  have "filter (in_bounds b) objects = []"
    using in_bounds_NaN [OF assms] by (simp add: filter_empty_conv)
  with 4 8 show "getArcsByZoomLevel toStr objects zoom (Some b) = []"
    by (simp add: getArcsByZoomLevel_def Let_def clusterArcs_Nil)
next
  show "getArcsByZoomLevel toStr objects NaN bounds =
      clusterArcs toStr
        (case bounds of None \<Rightarrow> objects | Some b' \<Rightarrow> filter (in_bounds b') objects) (Fin 1000)"
    by (cases bounds) (simp_all add: getArcsByZoomLevel_def Let_def num_ge_def clusterArcs_Nil)
qed

theorem getArcsByZoomLevel_NaN_witness:
  "(north nan_south = NaN \<or> south nan_south = NaN \<or> east nan_south = NaN \<or>
    west nan_south = NaN) \<and>
   num_le (Fin 2) (Fin 8) \<and>
   getArcsByZoomLevel plain three_objects (Fin 2) (Some nan_south)
     = getArcsByZoomLevel plain three_objects (Fin 2) None \<and>
   \<not> num_le (Fin 9) (Fin 8) \<and>
   getArcsByZoomLevel plain three_objects (Fin 9) (Some nan_south) = [] \<and>
   \<not> num_le NaN (Fin 8) \<and>
   getArcsByZoomLevel plain three_objects NaN (Some nan_south) = []"
proof -
  have n: "north nan_south = NaN \<or> south nan_south = NaN \<or> east nan_south = NaN \<or>
      west nan_south = NaN"
    by (simp add: nan_south_def)
  show ?thesis
    using n
      getArcsByZoomLevel_NaN [OF n, of "Fin 2" plain three_objects None]
      getArcsByZoomLevel_NaN [OF n, of "Fin 9" plain three_objects None]
      getArcsByZoomLevel_NaN [OF n, of NaN plain three_objects None]
    by simp
qed

text \<open>
  C8: in what \<open>aggregateByCountry\<close> returns, no aggregation is the one of the empty
  label or of "Unknown", and every member of an aggregation carries the country of the
  aggregation as its label; so no record with an empty or missing label is a member.
\<close>

theorem aggregateByCountry_labelled_only:
  assumes "agg \<in> set (aggregateByCountry objects)"
  shows "country agg \<noteq> [] \<and> country agg \<noteq> ''Unknown'' \<and>
         (\<forall>obj \<in> set (agg_objects agg). country_en (attributes obj) = Val (country agg))"
proof -
  note m = aggregateByCountry_member [OF assms]
  have "agg_objects agg = filter (\<lambda>obj. label obj = country agg) objects"
    by (metis m(3) aggregation_of_fields(2))
  then have "agg_objects agg = filter (\<lambda>obj. country_en (attributes obj) = Val (country agg)) objects"
    by (simp only: m(4))
  with m(1,2) show ?thesis by simp
qed

theorem aggregateByCountry_labelled_only_witness:
  "hd (aggregateByCountry france_example) \<in> set (aggregateByCountry france_example) \<and>
   country (hd (aggregateByCountry france_example)) \<noteq> [] \<and>
   country (hd (aggregateByCountry france_example)) \<noteq> ''Unknown'' \<and>
   list_all
     (\<lambda>obj. country_en (attributes obj) = Val (country (hd (aggregateByCountry france_example))))
     (agg_objects (hd (aggregateByCountry france_example)))"
proof -
  have m: "hd (aggregateByCountry france_example) \<in> set (aggregateByCountry france_example)"
    by (simp add: aggregateByCountry_france_example)
  show ?thesis
    using m aggregateByCountry_labelled_only [OF m] unfolding list_all_iff by blast
qed

text \<open>
  C9: every arc that \<open>clusterArcs\<close> or \<open>clusterArcsByCity\<close> returns, for any records
  and any cap, has a count of at least 1, and its count is the length of its list of
  objects.
\<close>

theorem arc_count_is_length_of_objects:
  assumes "arc \<in> set (clusterArcs toStr objects maxArcs) \<union>
                 set (clusterArcsByCity objects maxArcs')"
  shows "1 \<le> arc_count arc \<and> arc_count arc = length (arc_objects arc)"
proof -
  let ?P = "\<lambda>a. 1 \<le> arc_count a \<and> arc_count a = length (arc_objects a)"
  have "\<forall>a \<in> set (clusterArcs toStr objects maxArcs). ?P a"
    by (rule clusterArcs_values) (simp_all add: bump_def)
  moreover have "\<forall>a \<in> set (clusterArcsByCity objects maxArcs'). ?P a"
    by (rule clusterArcsByCity_values) (simp_all add: bump_def)
  ultimately show ?thesis using assms by blast
qed

theorem arc_count_is_length_of_objects_witness:
  "hd (clusterArcs plain [moved, stayed] (Fin 2000))
     \<in> set (clusterArcs plain [moved, stayed] (Fin 2000)) \<union>
        set (clusterArcsByCity [moved, stayed] (Fin 500)) \<and>
   1 \<le> arc_count (hd (clusterArcs plain [moved, stayed] (Fin 2000))) \<and>
   arc_count (hd (clusterArcs plain [moved, stayed] (Fin 2000)))
     = length (arc_objects (hd (clusterArcs plain [moved, stayed] (Fin 2000))))"
proof -
  have m: "hd (clusterArcs plain [moved, stayed] (Fin 2000))
     \<in> set (clusterArcs plain [moved, stayed] (Fin 2000)) \<union>
        set (clusterArcsByCity [moved, stayed] (Fin 500))"
    using hd_clusterArcs_moved_stayed by simp
  show ?thesis using m arc_count_is_length_of_objects [OF m] by simp
qed

text \<open>
  C10: in \<open>aggregateByCountry\<close>, a record whose origin latitude or longitude is 0 is a
  member of the aggregation of its country and is counted, and takes no part in the
  centroid: an aggregation whose members all have a zero coordinate has the centroid
  (0, 0), and the centroid of every aggregation is the one that the records without a
  zero coordinate give alone.
\<close>

theorem zero_coordinate_not_in_centroid:
  assumes "agg \<in> set (aggregateByCountry objects)"
  shows "agg_objects agg = filter (\<lambda>obj. country_en (attributes obj) = Val (country agg)) objects \<and>
         agg_count agg = length (agg_objects agg) \<and>
         ((\<forall>obj \<in> set (agg_objects agg). zero_coordinate obj) \<longrightarrow>
            agg_latitude agg = Fin 0 \<and> agg_longitude agg = Fin 0) \<and>
         (\<forall>agg' \<in> set (aggregateByCountry (filter (\<lambda>obj. \<not> zero_coordinate obj) objects)).
            country agg' = country agg \<longrightarrow>
            agg_latitude agg' = agg_latitude agg \<and> agg_longitude agg' = agg_longitude agg)"
proof -
  note m = aggregateByCountry_member [OF assms]
  let ?c = "country agg"
  let ?rs = "filter (\<lambda>obj. label obj = ?c) objects"
  have objs: "agg_objects agg = ?rs"
    by (metis m(3) aggregation_of_fields(2))
  have cnt: "agg_count agg = length ?rs"
    by (metis m(3) aggregation_of_fields(3))
  have cen: "(agg_latitude agg, agg_longitude agg) = foldl centroid_step (Fin 0, Fin 0) ?rs"
    by (metis m(3) aggregation_of_fields(4))
  have zero: "agg_latitude agg = Fin 0 \<and> agg_longitude agg = Fin 0"
    if "\<forall>obj \<in> set (agg_objects agg). zero_coordinate obj"
    using cen that unfolding objs by (simp add: fold_centroid_step_zero)
  have same: "agg_latitude agg' = agg_latitude agg \<and> agg_longitude agg' = agg_longitude agg"
    if "agg' \<in> set (aggregateByCountry (filter (\<lambda>obj. \<not> zero_coordinate obj) objects))"
      and "country agg' = ?c" for agg'
  proof -
    let ?nz = "filter (\<lambda>obj. \<not> zero_coordinate obj) objects"
    have "agg' = aggregation_of (country agg') ?nz"
      by (rule aggregateByCountry_member(3) [OF that(1)])
    then have "agg' = aggregation_of ?c ?nz"
      by (simp only: that(2))
    then have "(agg_latitude agg', agg_longitude agg')
        = foldl centroid_step (Fin 0, Fin 0) (filter (\<lambda>obj. label obj = ?c) ?nz)"
      by (metis aggregation_of_fields(4))
    also have "filter (\<lambda>obj. label obj = ?c) ?nz = filter (\<lambda>obj. \<not> zero_coordinate obj) ?rs"
      by (simp add: conj_commute)
    also have "foldl centroid_step (Fin 0, Fin 0) \<dots> = (agg_latitude agg, agg_longitude agg)"
      by (simp only: fold_centroid_step_filter cen)
    finally show ?thesis by simp
  qed
  have objs': "agg_objects agg = filter (\<lambda>obj. country_en (attributes obj) = Val ?c) objects"
    using objs by (simp only: m(4))
  have cnt': "agg_count agg = length (agg_objects agg)"
    using cnt objs by simp
  from objs' cnt' zero same show ?thesis by blast
qed

theorem zero_coordinate_not_in_centroid_witness:
  "hd (aggregateByCountry on_the_axes) \<in> set (aggregateByCountry on_the_axes) \<and>
   list_all zero_coordinate (agg_objects (hd (aggregateByCountry on_the_axes))) \<and>
   agg_count (hd (aggregateByCountry on_the_axes)) = 2 \<and>
   agg_latitude (hd (aggregateByCountry on_the_axes)) = Fin 0 \<and>
   agg_longitude (hd (aggregateByCountry on_the_axes)) = Fin 0 \<and>
   last (aggregateByCountry on_the_axes) \<in> set (aggregateByCountry on_the_axes) \<and>
   agg_count (last (aggregateByCountry on_the_axes)) = 3 \<and>
   list_all
     (\<lambda>agg'. country agg' = country (last (aggregateByCountry on_the_axes)) \<and>
        agg_latitude agg' = agg_latitude (last (aggregateByCountry on_the_axes)) \<and>
        agg_longitude agg' = agg_longitude (last (aggregateByCountry on_the_axes)))
     (aggregateByCountry (filter (\<lambda>obj. \<not> zero_coordinate obj) on_the_axes))"
proof -
  have k: "hd (aggregateByCountry on_the_axes) \<in> set (aggregateByCountry on_the_axes)"
    and f: "last (aggregateByCountry on_the_axes) \<in> set (aggregateByCountry on_the_axes)"
    by (simp_all add: aggregateByCountry_on_the_axes)
  have z: "\<forall>obj \<in> set (agg_objects (hd (aggregateByCountry on_the_axes))). zero_coordinate obj"
    by (simp add: aggregateByCountry_on_the_axes) (simp add: zero_coordinate_def example_defs)
  have c: "\<forall>agg' \<in> set (aggregateByCountry (filter (\<lambda>obj. \<not> zero_coordinate obj) on_the_axes)).
      country agg' = country (last (aggregateByCountry on_the_axes))"
    by (simp add: on_the_axes_filtered aggregateByCountry_off_the_axes
          aggregateByCountry_on_the_axes)
  have n: "agg_count (hd (aggregateByCountry on_the_axes)) = 2"
    "agg_count (last (aggregateByCountry on_the_axes)) = 3"
    by (simp_all add: aggregateByCountry_on_the_axes)
  show ?thesis
    using k f z c n zero_coordinate_not_in_centroid [OF k] zero_coordinate_not_in_centroid [OF f]
    unfolding list_all_iff by blast
qed

end
